theory Spec2Isabelle
  imports Main "HOL-Library.Sublist"
begin

section \<open>Python values used by the handlers\<close>

text \<open>
  The handlers of \<^verbatim>\<open>main.py\<close> report through \<^verbatim>\<open>cmds.warning\<close> and \<^verbatim>\<open>print\<close>; both are
  collected, in order, as the output of a handler. The host returns \<^verbatim>\<open>None\<close> instead of
  an empty list from several queries, and the code tests the result with \<^verbatim>\<open>if not x\<close> or
  replaces it with \<^verbatim>\<open>x or []\<close>; \<open>truthy\<close> and \<open>or_empty\<close> are these two idioms.
\<close>

datatype log_entry = Warning string | Print string

datatype py_error = IndexError | ValueError

definition truthy :: "'a list option \<Rightarrow> bool" where
  "truthy v = (case v of None \<Rightarrow> False | Some xs \<Rightarrow> xs \<noteq> [])"

definition or_empty :: "'a list option \<Rightarrow> 'a list" where
  "or_empty v = (case v of None \<Rightarrow> [] | Some xs \<Rightarrow> xs)"

definition none_if_empty :: "'a list \<Rightarrow> 'a list option" where
  "none_if_empty xs = (if xs = [] then None else Some xs)"

text \<open>Decimal rendering of an integer, as \<^verbatim>\<open>str\<close> and an f-string produce it.\<close>

definition digit_char :: "nat \<Rightarrow> char" where
  "digit_char d = ''0123456789'' ! d"

function str_nat :: "nat \<Rightarrow> string" where
  "str_nat n = (if n < 10 then [digit_char n] else str_nat (n div 10) @ [digit_char (n mod 10)])"
  by pat_completeness auto
termination
  by (relation "measure (\<lambda>n. n)") auto

declare str_nat.simps [simp del]

definition str_int :: "int \<Rightarrow> string" where
  "str_int i = (if i < 0 then CHR ''-'' # str_nat (nat (- i)) else str_nat (nat i))"

section \<open>The host scene and its API\<close>

text \<open>
  Modelled from the spec: the host application's scene-graph API (\<^verbatim>\<open>maya.cmds\<close>), which
  the repository calls and does not contain. The spec lists what the tool asks of it:
  the current selection, a text field holding the blocker name, a multi-selection list
  holding the light names, the existence of an object, the child shapes of a transform,
  the occupied indices of a sparse array attribute, the connection pairs into an
  attribute, and the creation and removal of a connection, either of which the host may
  refuse (the spec names an existing connection and a locked attribute as causes).

  A connection is a directed edge (source plug name, destination plug name). An element
  of an array attribute \<open>a\<close> is the plug named \<open>a[i]\<close> with \<open>i\<close> a non-negative integer in
  decimal; an index is occupied when an edge ends at that element. Object and plug
  names are canonical strings and every name handed to the host resolves to a node. A
  node may lack an attribute: \<open>scene_missing_attrs\<close> holds the attribute names that do not
  exist in the scene. Of the queries only \<^verbatim>\<open>getAttr\<close> is modelled as raising, on such an
  attribute; \<^verbatim>\<open>listRelatives\<close> and \<^verbatim>\<open>listConnections\<close> answer \<^verbatim>\<open>None\<close> where there is
  nothing to list.
\<close>

record host =
  scene_selection :: "string list"
  lightBlockerField :: string
  lightListTSL :: "string list"
  lightListTSL_selected :: "string list"
  scene_objects :: "string set"
  scene_shapes :: "string \<Rightarrow> string list"
  scene_connections :: "(string \<times> string) list"
  scene_locked :: "string set"
  scene_missing_attrs :: "string set"

text \<open>Modelled from the spec: the current selection, \<^verbatim>\<open>cmds.ls(sl=True)\<close>, an ordered list of names.\<close>

definition ls_sl :: "host \<Rightarrow> string list" where
  "ls_sl h = scene_selection h"

text \<open>
  Modelled from the spec: the single-line text field holding the blocker name,
  \<^verbatim>\<open>cmds.textField("lightBlockerField", q=True, tx=True)\<close> and its edit form.
\<close>

definition textField_q_tx :: "host \<Rightarrow> string" where
  "textField_q_tx h = lightBlockerField h"

definition textField_e_tx :: "string \<Rightarrow> host \<Rightarrow> host" where
  "textField_e_tx tx h = h\<lparr>lightBlockerField := tx\<rparr>"

text \<open>
  Modelled from the spec: the multi-selection list holding the light names,
  \<^verbatim>\<open>cmds.textScrollList("lightListTSL", ...)\<close>: all items, the selected items, appending
  an item, and removing the item with a given text (which also leaves the selection).
  A query answers \<^verbatim>\<open>None\<close> instead of an empty list.
\<close>

definition textScrollList_q_ai :: "host \<Rightarrow> string list option" where
  "textScrollList_q_ai h = none_if_empty (lightListTSL h)"

definition textScrollList_q_si :: "host \<Rightarrow> string list option" where
  "textScrollList_q_si h = none_if_empty (lightListTSL_selected h)"

definition textScrollList_e_a :: "string \<Rightarrow> host \<Rightarrow> host" where
  "textScrollList_e_a item h = h\<lparr>lightListTSL := lightListTSL h @ [item]\<rparr>"

definition textScrollList_e_ri :: "string \<Rightarrow> host \<Rightarrow> host" where
  "textScrollList_e_ri item h =
     h\<lparr>lightListTSL := remove1 item (lightListTSL h),
       lightListTSL_selected := removeAll item (lightListTSL_selected h)\<rparr>"

text \<open>
  Modelled from the spec: the existence of an object, \<^verbatim>\<open>cmds.objExists\<close>, and the child
  shapes of a transform, \<^verbatim>\<open>cmds.listRelatives(t, s=True, f=True)\<close>, which answers
  \<^verbatim>\<open>None\<close> when there is no shape.
\<close>

definition objExists :: "host \<Rightarrow> string \<Rightarrow> bool" where
  "objExists h name = (name \<in> scene_objects h)"

definition listRelatives_s :: "host \<Rightarrow> string \<Rightarrow> string list option" where
  "listRelatives_s h transform = none_if_empty (scene_shapes h transform)"

text \<open>
  Modelled from the spec: the host's addressing of array elements, the name of element
  \<open>i\<close> of an attribute and the index that a plug name denotes (none when the name is not
  an element of the attribute).
\<close>

definition element_name :: "string \<Rightarrow> int \<Rightarrow> string" where
  "element_name attr i = attr @ ''['' @ str_int i @ '']''"

definition digit_val :: "char \<Rightarrow> nat option" where
  "digit_val c =
     map_of [(CHR ''0'', 0), (CHR ''1'', 1), (CHR ''2'', 2), (CHR ''3'', 3), (CHR ''4'', 4),
             (CHR ''5'', 5), (CHR ''6'', 6), (CHR ''7'', 7), (CHR ''8'', 8), (CHR ''9'', 9)] c"

fun parse_digits :: "nat \<Rightarrow> string \<Rightarrow> nat option" where
  "parse_digits acc [] = Some acc"
| "parse_digits acc (c # cs) =
     (case digit_val c of None \<Rightarrow> None | Some d \<Rightarrow> parse_digits (10 * acc + d) cs)"

definition element_index :: "string \<Rightarrow> string \<Rightarrow> int option" where
  "element_index attr plug =
     (if prefix (attr @ ''['') plug then
        (case parse_digits 0 (butlast (drop (length attr + 1) plug)) of
           None \<Rightarrow> None
         | Some n \<Rightarrow> if plug = element_name attr (int n) then Some (int n) else None)
      else None)"

definition is_element :: "string \<Rightarrow> string \<Rightarrow> bool" where
  "is_element attr plug = (element_index attr plug \<noteq> None)"

text \<open>
  Modelled from the spec: the occupied indices of a sparse array attribute,
  \<^verbatim>\<open>cmds.getAttr(attr, multiIndices=True)\<close>, \<^verbatim>\<open>None\<close> when there are none. The query raises
  \<^verbatim>\<open>ValueError\<close> when the attribute does not exist.
\<close>

definition getAttr_multiIndices :: "host \<Rightarrow> string \<Rightarrow> py_error + int list option" where
  "getAttr_multiIndices h attr =
     (if attr \<in> scene_missing_attrs h then Inl ValueError
      else Inr (none_if_empty
                 (List.map_filter (\<lambda>e. element_index attr (snd e)) (scene_connections h))))"

text \<open>
  Modelled from the spec: all connection pairs into an attribute,
  \<^verbatim>\<open>cmds.listConnections(attr, plugs=True, connections=True)\<close>, as the flat list
  \<^verbatim>\<open>[dest, source, dest, source, ...]\<close> of the edges into the elements of \<open>attr\<close>,
  \<^verbatim>\<open>None\<close> when there are none.
\<close>

definition listConnections_plugs :: "host \<Rightarrow> string \<Rightarrow> string list option" where
  "listConnections_plugs h attr =
     none_if_empty (concat (map (\<lambda>e. [snd e, fst e])
       (filter (\<lambda>e. is_element attr (snd e)) (scene_connections h))))"

text \<open>
  Modelled from the spec: creating a connection, \<^verbatim>\<open>cmds.connectAttr(src, dest, f=True)\<close>.
  The host refuses (it raises; \<open>Inl\<close> carries the error text) when the destination is
  locked or the edge exists already; otherwise the edge replaces whatever was connected
  to the destination.
\<close>

definition connectAttr_f :: "host \<Rightarrow> string \<Rightarrow> string \<Rightarrow> string + host" where
  "connectAttr_f h src dest =
     (if dest \<in> scene_locked h then Inl ''The destination attribute is locked.''
      else if (src, dest) \<in> set (scene_connections h) then Inl ''The attributes are already connected.''
      else Inr (h\<lparr>scene_connections :=
                     filter (\<lambda>e. snd e \<noteq> dest) (scene_connections h) @ [(src, dest)]\<rparr>))"

text \<open>
  Modelled from the spec: removing a connection, \<^verbatim>\<open>cmds.disconnectAttr(src, dest)\<close>. The
  host refuses when the destination is locked or there is no such edge; otherwise the
  edge is removed.
\<close>

definition disconnectAttr :: "host \<Rightarrow> string \<Rightarrow> string \<Rightarrow> string + host" where
  "disconnectAttr h src dest =
     (if dest \<in> scene_locked h then Inl ''The destination attribute is locked.''
      else if (src, dest) \<notin> set (scene_connections h) then Inl ''There is no connection to disconnect.''
      else Inr (h\<lparr>scene_connections := removeAll (src, dest) (scene_connections h)\<rparr>))"

section \<open>The handlers of main.py\<close>

subsection \<open>pick_light_blocker\<close>

definition pick_light_blocker :: "host \<Rightarrow> host \<times> log_entry list" where
  "pick_light_blocker h =
     (case ls_sl h of
        [] \<Rightarrow> (h, [Warning ''No objects selected to set as Light Blocker.''])
      | blocker # _ \<Rightarrow> (textField_e_tx blocker h, []))"

subsection \<open>add_selected_lights and remove_selected_lights\<close>

text \<open>The body of the loop of \<^verbatim>\<open>add_selected_lights\<close>: the list is read again for every object.\<close>

definition add_light :: "string \<Rightarrow> host \<Rightarrow> host" where
  "add_light obj h =
     (let existing = or_empty (textScrollList_q_ai h)
      in if obj \<notin> set existing then textScrollList_e_a obj h else h)"

definition add_selected_lights :: "host \<Rightarrow> host \<times> log_entry list" where
  "add_selected_lights h =
     (let selection = ls_sl h
      in if selection = [] then (h, [Warning ''No lights selected to add.''])
         else (fold add_light selection h, []))"

definition remove_selected_lights :: "host \<Rightarrow> host \<times> log_entry list" where
  "remove_selected_lights h =
     (let selected_in_list = textScrollList_q_si h
      in if \<not> truthy selected_in_list
         then (h, [Warning ''No lights selected in the list to remove.''])
         else (fold textScrollList_e_ri (or_empty selected_in_list) h, []))"

subsection \<open>connect_blocker\<close>

text \<open>
  The search for the next free index (lines 74 to 80): \<open>next_index\<close> starts at 0 and,
  when \<open>current_indices\<close> is a non-empty list, becomes the first \<open>idx\<close> of \<^verbatim>\<open>range(1000)\<close>
  that is not in it.
\<close>

definition next_index :: "int list option \<Rightarrow> int" where
  "next_index current_indices =
     (if truthy current_indices then
        (case find (\<lambda>idx. idx \<notin> set (or_empty current_indices)) [0..999] of
           Some idx \<Rightarrow> idx
         | None \<Rightarrow> 0)
      else 0)"

definition no_shape_warning :: "string \<Rightarrow> log_entry" where
  "no_shape_warning light_transform =
     Warning (''No shape found under '' @ [CHR 0x27] @ light_transform @ [CHR 0x27]
              @ ''. Skipping...'')"

text \<open>
  The body of the loop over the lights (lines 61 to 90). Only \<^verbatim>\<open>connectAttr\<close> is inside
  the \<^verbatim>\<open>try\<close>: an error raised by the \<^verbatim>\<open>getAttr\<close> of line 71 is caught by nothing, and the
  handler stops there, keeping what it has done.
\<close>

definition connect_light :: "string \<Rightarrow> string \<Rightarrow> host \<Rightarrow> host \<times> log_entry list \<times> py_error option" where
  "connect_light blocker light_transform h =
     (case or_empty (listRelatives_s h light_transform) of
        [] \<Rightarrow> (h, [no_shape_warning light_transform], None)
      | light_shape # _ \<Rightarrow>
          (let multi_attr = light_shape @ ''.aiFilters''
           in case getAttr_multiIndices h multi_attr of
                Inl err \<Rightarrow> (h, [], Some err)
              | Inr current_indices \<Rightarrow>
                  (let dest_attr = light_shape @ ''.aiFilters[''
                                   @ str_int (next_index current_indices) @ '']''
                   in case connectAttr_f h (blocker @ ''.message'') dest_attr of
                        Inr h' \<Rightarrow>
                          (h', [Print (''Connected '' @ blocker @ ''.message -> '' @ dest_attr)], None)
                      | Inl e \<Rightarrow>
                          (h, [Warning (''Could not connect '' @ blocker @ ''.message -> ''
                                        @ dest_attr @ '': '' @ e)], None))))"

fun connect_lights :: "string \<Rightarrow> string list \<Rightarrow> host \<Rightarrow> host \<times> log_entry list \<times> py_error option" where
  "connect_lights blocker [] h = (h, [], None)"
| "connect_lights blocker (light_transform # lights) h =
     (case connect_light blocker light_transform h of
        (h1, out1, Some err) \<Rightarrow> (h1, out1, Some err)
      | (h1, out1, None) \<Rightarrow>
          (let (h2, out2, err) = connect_lights blocker lights h1
           in (h2, out1 @ out2, err)))"

definition connect_blocker :: "host \<Rightarrow> host \<times> log_entry list \<times> py_error option" where
  "connect_blocker h =
     (let blocker = textField_q_tx h
      in if blocker = [] \<or> \<not> objExists h blocker
         then (h, [Warning ''Invalid or no Light Blocker specified.''], None)
         else (let lights = textScrollList_q_ai h
               in if \<not> truthy lights
                  then (h, [Warning ''No lights in the list to connect.''], None)
                  else connect_lights blocker (or_empty lights) h))"

subsection \<open>disconnect_blocker\<close>

text \<open>
  The loop over the flat list of pairs (lines 123 to 135). Reading \<^verbatim>\<open>connections[i+1]\<close>
  past the end of a list of odd length raises \<^verbatim>\<open>IndexError\<close>, which nothing catches: the
  handler stops there, keeping what it has done.
\<close>

fun disconnect_pairs :: "string \<Rightarrow> string list \<Rightarrow> host \<Rightarrow> host \<times> log_entry list \<times> py_error option" where
  "disconnect_pairs blocker [] h = (h, [], None)"
| "disconnect_pairs blocker [dest_plug] h = (h, [], Some IndexError)"
| "disconnect_pairs blocker (dest_plug # src_plug # rest) h =
     (if blocker @ ''.message'' = src_plug \<and> sublist ''.aiFilters['' dest_plug then
        (case disconnectAttr h src_plug dest_plug of
           Inr h' \<Rightarrow>
             (let (h2, out2, err) = disconnect_pairs blocker rest h'
              in (h2, Print (''Disconnected '' @ src_plug @ '' -> '' @ dest_plug) # out2, err))
         | Inl e \<Rightarrow>
             (let (h2, out2, err) = disconnect_pairs blocker rest h
              in (h2, Warning (''Could not disconnect '' @ src_plug @ '' -> '' @ dest_plug
                               @ '': '' @ e) # out2, err)))
      else disconnect_pairs blocker rest h)"

text \<open>The body of the loop over the lights (lines 108 to 135).\<close>

definition disconnect_light :: "string \<Rightarrow> string \<Rightarrow> host \<Rightarrow> host \<times> log_entry list \<times> py_error option" where
  "disconnect_light blocker light_transform h =
     (case or_empty (listRelatives_s h light_transform) of
        [] \<Rightarrow> (h, [no_shape_warning light_transform], None)
      | light_shape # _ \<Rightarrow>
          (let connections = or_empty (listConnections_plugs h (light_shape @ ''.aiFilters''))
           in disconnect_pairs blocker connections h))"

fun disconnect_lights :: "string \<Rightarrow> string list \<Rightarrow> host \<Rightarrow> host \<times> log_entry list \<times> py_error option" where
  "disconnect_lights blocker [] h = (h, [], None)"
| "disconnect_lights blocker (light_transform # lights) h =
     (case disconnect_light blocker light_transform h of
        (h1, out1, Some err) \<Rightarrow> (h1, out1, Some err)
      | (h1, out1, None) \<Rightarrow>
          (let (h2, out2, err) = disconnect_lights blocker lights h1
           in (h2, out1 @ out2, err)))"

definition disconnect_blocker :: "host \<Rightarrow> host \<times> log_entry list \<times> py_error option" where
  "disconnect_blocker h =
     (let blocker = textField_q_tx h
      in if blocker = [] \<or> \<not> objExists h blocker
         then (h, [Warning ''Invalid or no Light Blocker specified.''], None)
         else (let lights = textScrollList_q_ai h
               in if \<not> truthy lights
                  then (h, [Warning ''No lights in the list to disconnect.''], None)
                  else disconnect_lights blocker (or_empty lights) h))"

section \<open>Specification predicates\<close>

text \<open>The minimum excluded non-negative integer of a set, in the spec's words.\<close>

definition is_mex :: "int set \<Rightarrow> int \<Rightarrow> bool" where
  "is_mex occupied r = (0 \<le> r \<and> r \<notin> occupied \<and> (\<forall>m\<in>{0..<r}. m \<in> occupied))"

text \<open>
  A connection on a light's array attribute whose source is the blocker's message
  attribute: the edge goes from \<open>blocker.message\<close> to an element of \<open>light_shape.aiFilters\<close>.
\<close>

definition blocker_edge :: "string \<Rightarrow> string \<Rightarrow> string \<times> string \<Rightarrow> bool" where
  "blocker_edge blocker light_shape e =
     (fst e = blocker @ ''.message'' \<and> is_element (light_shape @ ''.aiFilters'') (snd e))"

section \<open>Example scenes\<close>

text \<open>
  A blocker \<open>blk\<close> and a light \<open>L\<close> with the shape \<open>LS\<close>; both are selected in the
  scene, the blocker is picked, and the light is in the list and selected there.
\<close>

definition scene_one_light :: host where
  "scene_one_light =
     \<lparr>scene_selection = [''blk'', ''L''], lightBlockerField = ''blk'', lightListTSL = [''L''],
      lightListTSL_selected = [''L''], scene_objects = {''blk'', ''L'', ''LS''},
      scene_shapes = (\<lambda>t. if t = ''L'' then [''LS''] else []),
      scene_connections = [], scene_locked = {}, scene_missing_attrs = {}\<rparr>"

text \<open>The same scene with every index from 0 to 999 of the light's array occupied by another node.\<close>

definition scene_all_occupied :: host where
  "scene_all_occupied =
     scene_one_light\<lparr>scene_connections :=
       map (\<lambda>i. (''other.message'', element_name ''LS.aiFilters'' i)) [0..999]\<rparr>"



text \<open>The blocker connected at the indices 0 and 2, another node at index 1, nothing locked.\<close>

definition scene_two_connections :: host where
  "scene_two_connections =
     scene_one_light\<lparr>scene_connections :=
       [(''blk.message'', ''LS.aiFilters[0]''), (''other.message'', ''LS.aiFilters[1]''),
        (''blk.message'', ''LS.aiFilters[2]'')]\<rparr>"




section \<open>The next free index\<close>

lemma find_upto_Some:
  assumes "find P [0..n] = Some r"
  shows "0 \<le> r \<and> r \<le> n \<and> P r \<and> (\<forall>m\<in>{0..<r}. \<not> P m)"
proof -
  from assms obtain k where k: "k < length [0..n]" "P ([0..n] ! k)" "r = [0..n] ! k"
    "\<forall>j<k. \<not> P ([0..n] ! j)"
    by (auto simp: find_Some_iff)
  from k(1) have kn: "int k \<le> n" by simp
  then have r: "r = int k" using k(3) by (simp add: nth_upto)
  have "\<not> P m" if "m \<in> {0..<r}" for m
  proof -
    from that r have "nat m < k" "0 \<le> m" by auto
    with k(4) have "\<not> P ([0..n] ! nat m)" by blast
    moreover have "[0..n] ! nat m = m" using \<open>0 \<le> m\<close> \<open>nat m < k\<close> kn by (simp add: nth_upto)
    ultimately show ?thesis by simp
  qed
  with r kn k(2,3) show ?thesis by auto
qed

lemma find_upto_None: "find P [0..n] = None \<longleftrightarrow> (\<forall>m\<in>{0..n}. \<not> P m)"
  by (auto simp: find_None_iff)

lemma next_index_Some:
  "next_index (Some xs) =
     (if xs = [] then 0 else case find (\<lambda>idx. idx \<notin> set xs) [0..999] of Some idx \<Rightarrow> idx | None \<Rightarrow> 0)"
  by (simp add: next_index_def truthy_def or_empty_def)

lemma next_index_is_mex:
  assumes "\<not> {0..<1000} \<subseteq> set xs"
  shows "is_mex (set xs) (next_index (Some xs))"
proof (cases "xs = []")
  case True
  then show ?thesis by (simp add: next_index_Some is_mex_def)
next
  case False
  from assms have "find (\<lambda>idx. idx \<notin> set xs) [0..999] \<noteq> None"
    by (auto simp: find_upto_None)
  then obtain r where r: "find (\<lambda>idx. idx \<notin> set xs) [0..999] = Some r" by auto
  from find_upto_Some [OF r] False r show ?thesis
    by (simp add: next_index_Some is_mex_def)
qed

lemma next_index_full:
  assumes "{0..<1000} \<subseteq> set xs"
  shows "next_index (Some xs) = 0"
proof -
  have "find (\<lambda>idx. idx \<notin> set xs) [0..999] = None"
    using assms by (auto simp: find_upto_None)
  then show ?thesis by (simp add: next_index_Some)
qed

text \<open>
  Claim C1. For every list of occupied indices that does not cover the whole range
  0 to 999, the index search of \<^verbatim>\<open>connect_blocker\<close> returns the minimum excluded
  non-negative integer of the occupied set. It returns 0 when nothing is occupied (the
  host answers \<^verbatim>\<open>None\<close> or an empty list), 1 for {0}, 3 for {0,1,2}, 0 for {1}, and the
  first gap 1 for {0,2}.
\<close>

theorem next_index_mex:
  "(\<not> {0..<1000} \<subseteq> set xs \<longrightarrow> is_mex (set xs) (next_index (Some xs)))
   \<and> next_index None = 0 \<and> next_index (Some []) = 0
   \<and> next_index (Some [0]) = 1
   \<and> next_index (Some [0, 1, 2]) = 3
   \<and> next_index (Some [1]) = 0
   \<and> next_index (Some [0, 2]) = 1"
proof -
  have a: "next_index None = 0" "next_index (Some []) = 0"
    by (simp_all add: next_index_def truthy_def)
  have b: "next_index (Some [0]) = 1" "next_index (Some [0, 1, 2]) = 3"
    "next_index (Some [1]) = 0" "next_index (Some [0, 2]) = 1"
    by (simp_all add: next_index_Some upto.simps)
  from a b next_index_is_mex show ?thesis by blast
qed

theorem next_index_mex_witness:
  "\<not> {0..<1000} \<subseteq> set [0, 2 :: int] \<and> is_mex (set [0, 2]) (next_index (Some [0, 2]))
   \<and> next_index (Some [0, 2]) = 1"
proof -
  have "(1::int) \<in> {0..<1000}" "(1::int) \<notin> set [0, 2]" by simp_all
  then have h: "\<not> {0..<1000} \<subseteq> set [0, 2 :: int]" by blast
  with next_index_mex [of "[0, 2]"] show ?thesis by blast
qed

section \<open>Picking the blocker\<close>

text \<open>
  Claim C9. With a non-empty selection \<^verbatim>\<open>pick_light_blocker\<close> stores exactly the first
  selected object in the blocker field and ignores the others; with an empty selection
  it warns and leaves the host, the blocker field included, unchanged.
\<close>

theorem pick_light_blocker_first:
  "(scene_selection h = first # others \<longrightarrow>
      pick_light_blocker h = (h\<lparr>lightBlockerField := first\<rparr>, []))
   \<and> (scene_selection h = [] \<longrightarrow>
      pick_light_blocker h = (h, [Warning ''No objects selected to set as Light Blocker.'']))"
  by (simp add: pick_light_blocker_def ls_sl_def textField_e_tx_def)

theorem pick_light_blocker_first_witness:
  "scene_selection scene_one_light = ''blk'' # [''L'']
   \<and> pick_light_blocker scene_one_light = (scene_one_light\<lparr>lightBlockerField := ''blk''\<rparr>, [])
   \<and> scene_selection (scene_one_light\<lparr>scene_selection := []\<rparr>) = []
   \<and> pick_light_blocker (scene_one_light\<lparr>scene_selection := []\<rparr>) =
       (scene_one_light\<lparr>scene_selection := []\<rparr>, [Warning ''No objects selected to set as Light Blocker.''])"
proof -
  have a: "scene_selection scene_one_light = ''blk'' # [''L'']"
    by (simp add: scene_one_light_def)
  have b: "scene_selection (scene_one_light\<lparr>scene_selection := []\<rparr>) = []" by simp
  from a b pick_light_blocker_first [of scene_one_light "''blk''" "[''L'']"]
    pick_light_blocker_first [of "scene_one_light\<lparr>scene_selection := []\<rparr>"]
  show ?thesis by blast
qed

section \<open>The light list\<close>

lemma or_empty_None [simp]: "or_empty None = []"
  by (simp add: or_empty_def)

lemma or_empty_none_if_empty [simp]: "or_empty (none_if_empty xs) = xs"
  by (simp add: or_empty_def none_if_empty_def)

lemma truthy_none_if_empty [simp]: "truthy (none_if_empty xs) = (xs \<noteq> [])"
  by (simp add: truthy_def none_if_empty_def)

lemma add_light_eq:
  "add_light obj h =
     (if obj \<in> set (lightListTSL h) then h else h\<lparr>lightListTSL := lightListTSL h @ [obj]\<rparr>)"
  by (simp add: add_light_def textScrollList_q_ai_def textScrollList_e_a_def)

lemma fold_add_light_present:
  "set sel \<subseteq> set (lightListTSL h) \<Longrightarrow> fold add_light sel h = h"
proof (induction sel arbitrary: h)
  case Nil
  then show ?case by simp
next
  case (Cons a sel)
  from Cons.prems have "add_light a h = h" by (simp add: add_light_eq)
  with Cons show ?case by simp
qed

lemma add_light_list:
  "lightListTSL (add_light obj h) =
     (if obj \<in> set (lightListTSL h) then lightListTSL h else lightListTSL h @ [obj])"
  by (simp add: add_light_eq)

lemma fold_add_light_count:
  "count_list (lightListTSL (fold add_light sel h)) x =
     (if x \<in> set (lightListTSL h) then count_list (lightListTSL h) x
      else if x \<in> set sel then 1 else 0)"
proof (induction sel arbitrary: h)
  case Nil
  then show ?case by (simp add: count_list_0_iff)
next
  case (Cons a sel)
  have "count_list (lightListTSL (fold add_light (a # sel) h)) x =
        count_list (lightListTSL (fold add_light sel (add_light a h))) x"
    by simp
  also have "\<dots> = (if x \<in> set (lightListTSL (add_light a h))
                     then count_list (lightListTSL (add_light a h)) x
                     else if x \<in> set sel then 1 else 0)"
    by (rule Cons.IH)
  also have "\<dots> = (if x \<in> set (lightListTSL h) then count_list (lightListTSL h) x
                     else if x \<in> set (a # sel) then 1 else 0)"
    by (auto simp: add_light_list count_list_0_iff)
  finally show ?case .
qed

lemma fold_add_light_set:
  "set (lightListTSL (fold add_light sel h)) = set (lightListTSL h) \<union> set sel"
proof (induction sel arbitrary: h)
  case Nil
  then show ?case by simp
next
  case (Cons a sel)
  have "set (lightListTSL (fold add_light (a # sel) h)) =
        set (lightListTSL (add_light a h)) \<union> set sel"
    using Cons.IH [of "add_light a h"] by simp
  then show ?case by (auto simp: add_light_list)
qed

lemma fold_add_light_distinct:
  "distinct (lightListTSL h) \<Longrightarrow> distinct (lightListTSL (fold add_light sel h))"
proof (induction sel arbitrary: h)
  case Nil
  then show ?case by simp
next
  case (Cons a sel)
  from Cons.prems have "distinct (lightListTSL (add_light a h))"
    by (simp add: add_light_list)
  from Cons.IH [OF this] show ?case by simp
qed

lemma distinct_count_list_one:
  "distinct xs \<Longrightarrow> x \<in> set xs \<Longrightarrow> count_list xs x = 1"
  by (induction xs) auto

lemma add_selected_lights_list:
  "lightListTSL (fst (add_selected_lights h)) = lightListTSL (fold add_light (scene_selection h) h)"
  by (simp add: add_selected_lights_def ls_sl_def Let_def)

text \<open>
  Claim C5. After \<^verbatim>\<open>add_selected_lights\<close> every selected name is in the list, a name
  that was absent occurs exactly once, the entries that were there keep their number
  (adding names that are all present leaves the host unchanged), and a list without
  duplicates stays without duplicates, each selected name occurring exactly once.
\<close>

theorem add_selected_lights_no_duplicates:
  "(\<forall>x\<in>set (scene_selection h).
       x \<in> set (lightListTSL (fst (add_selected_lights h)))
       \<and> (x \<notin> set (lightListTSL h) \<longrightarrow> count_list (lightListTSL (fst (add_selected_lights h))) x = 1))
   \<and> (\<forall>x\<in>set (lightListTSL h).
       count_list (lightListTSL (fst (add_selected_lights h))) x = count_list (lightListTSL h) x)
   \<and> (set (scene_selection h) \<subseteq> set (lightListTSL h) \<longrightarrow> fst (add_selected_lights h) = h)
   \<and> (distinct (lightListTSL h) \<longrightarrow>
        distinct (lightListTSL (fst (add_selected_lights h)))
        \<and> (\<forall>x\<in>set (scene_selection h). count_list (lightListTSL (fst (add_selected_lights h))) x = 1))"
proof -
  let ?new = "lightListTSL (fst (add_selected_lights h))"
  have cnt: "count_list ?new x =
     (if x \<in> set (lightListTSL h) then count_list (lightListTSL h) x
      else if x \<in> set (scene_selection h) then 1 else 0)" for x
    by (simp only: add_selected_lights_list fold_add_light_count)
  have mem: "set ?new = set (lightListTSL h) \<union> set (scene_selection h)"
    by (simp only: add_selected_lights_list fold_add_light_set)
  have same: "fst (add_selected_lights h) = h" if "set (scene_selection h) \<subseteq> set (lightListTSL h)"
    using that by (simp add: add_selected_lights_def ls_sl_def Let_def fold_add_light_present)
  have dist: "distinct ?new" if "distinct (lightListTSL h)"
    using that by (simp only: add_selected_lights_list fold_add_light_distinct)
  have one: "count_list ?new x = 1" if "distinct (lightListTSL h)" "x \<in> set (scene_selection h)" for x
  proof -
    from that(2) mem have "x \<in> set ?new" by simp
    with dist [OF that(1)] show ?thesis by (simp add: distinct_count_list_one)
  qed
  show ?thesis
  proof (intro conjI ballI impI)
    fix x assume "x \<in> set (scene_selection h)"
    then show "x \<in> set ?new" using mem by simp
  next
    fix x assume "x \<in> set (scene_selection h)" "x \<notin> set (lightListTSL h)"
    then show "count_list ?new x = 1" by (simp add: cnt)
  next
    fix x assume "x \<in> set (lightListTSL h)"
    then show "count_list ?new x = count_list (lightListTSL h) x" by (simp add: cnt)
  next
    assume "set (scene_selection h) \<subseteq> set (lightListTSL h)"
    then show "fst (add_selected_lights h) = h" by (rule same)
  next
    assume "distinct (lightListTSL h)"
    then show "distinct ?new" by (rule dist)
  next
    fix x assume "distinct (lightListTSL h)" "x \<in> set (scene_selection h)"
    then show "count_list ?new x = 1" by (rule one)
  qed
qed

theorem add_selected_lights_no_duplicates_witness:
  "distinct (lightListTSL scene_one_light)
   \<and> ''L'' \<in> set (scene_selection scene_one_light)
   \<and> ''L'' \<in> set (lightListTSL scene_one_light)
   \<and> ''blk'' \<in> set (scene_selection scene_one_light)
   \<and> ''blk'' \<notin> set (lightListTSL scene_one_light)
   \<and> lightListTSL (fst (add_selected_lights scene_one_light)) = [''L'', ''blk'']
   \<and> count_list (lightListTSL (fst (add_selected_lights scene_one_light))) ''L'' = 1
   \<and> count_list (lightListTSL (fst (add_selected_lights scene_one_light))) ''blk'' = 1
   \<and> distinct (lightListTSL (fst (add_selected_lights scene_one_light)))
   \<and> set (scene_selection (scene_one_light\<lparr>scene_selection := [''L'']\<rparr>))
        \<subseteq> set (lightListTSL (scene_one_light\<lparr>scene_selection := [''L'']\<rparr>))
   \<and> fst (add_selected_lights (scene_one_light\<lparr>scene_selection := [''L'']\<rparr>))
        = scene_one_light\<lparr>scene_selection := [''L'']\<rparr>"
proof -
  have a: "distinct (lightListTSL scene_one_light)"
    "''L'' \<in> set (scene_selection scene_one_light)"
    "''L'' \<in> set (lightListTSL scene_one_light)"
    "''blk'' \<in> set (scene_selection scene_one_light)"
    "''blk'' \<notin> set (lightListTSL scene_one_light)"
    by (simp_all add: scene_one_light_def)
  have b: "lightListTSL (fst (add_selected_lights scene_one_light)) = [''L'', ''blk'']"
    by (simp add: add_selected_lights_def ls_sl_def add_light_eq scene_one_light_def)
  have c: "set (scene_selection (scene_one_light\<lparr>scene_selection := [''L'']\<rparr>))
        \<subseteq> set (lightListTSL (scene_one_light\<lparr>scene_selection := [''L'']\<rparr>))"
    by (simp add: scene_one_light_def)
  from a b c add_selected_lights_no_duplicates [of scene_one_light]
    add_selected_lights_no_duplicates [of "scene_one_light\<lparr>scene_selection := [''L'']\<rparr>"]
  show ?thesis by blast
qed

section \<open>Input checks of connect_blocker and disconnect_blocker\<close>

text \<open>
  Claim C7. When the blocker field is empty or names an object that does not exist, or
  the light list is empty, \<^verbatim>\<open>connect_blocker\<close> and \<^verbatim>\<open>disconnect_blocker\<close> each issue
  exactly one warning and return the host unchanged, with no exception raised.
\<close>

theorem invalid_input_aborts:
  assumes "lightBlockerField h = [] \<or> lightBlockerField h \<notin> scene_objects h \<or> lightListTSL h = []"
  shows "connect_blocker h =
           (h, [Warning (if lightBlockerField h = [] \<or> lightBlockerField h \<notin> scene_objects h
                         then ''Invalid or no Light Blocker specified.''
                         else ''No lights in the list to connect.'')], None)
         \<and> disconnect_blocker h =
           (h, [Warning (if lightBlockerField h = [] \<or> lightBlockerField h \<notin> scene_objects h
                         then ''Invalid or no Light Blocker specified.''
                         else ''No lights in the list to disconnect.'')], None)"
  using assms
  by (auto simp: connect_blocker_def disconnect_blocker_def textField_q_tx_def objExists_def
      textScrollList_q_ai_def)

theorem invalid_input_aborts_witness:
  "lightBlockerField (scene_one_light\<lparr>lightBlockerField := []\<rparr>) = []
   \<and> connect_blocker (scene_one_light\<lparr>lightBlockerField := []\<rparr>) =
       (scene_one_light\<lparr>lightBlockerField := []\<rparr>, [Warning ''Invalid or no Light Blocker specified.''], None)
   \<and> disconnect_blocker (scene_one_light\<lparr>lightBlockerField := []\<rparr>) =
       (scene_one_light\<lparr>lightBlockerField := []\<rparr>, [Warning ''Invalid or no Light Blocker specified.''], None)
   \<and> lightListTSL (scene_one_light\<lparr>lightListTSL := []\<rparr>) = []
   \<and> connect_blocker (scene_one_light\<lparr>lightListTSL := []\<rparr>) =
       (scene_one_light\<lparr>lightListTSL := []\<rparr>, [Warning ''No lights in the list to connect.''], None)
   \<and> disconnect_blocker (scene_one_light\<lparr>lightListTSL := []\<rparr>) =
       (scene_one_light\<lparr>lightListTSL := []\<rparr>, [Warning ''No lights in the list to disconnect.''], None)"
proof -
  let ?a = "scene_one_light\<lparr>lightBlockerField := []\<rparr>"
  let ?b = "scene_one_light\<lparr>lightListTSL := []\<rparr>"
  have a: "lightBlockerField ?a = []" by simp
  have b: "lightListTSL ?b = []" "lightBlockerField ?b \<noteq> []" "lightBlockerField ?b \<in> scene_objects ?b"
    by (simp_all add: scene_one_light_def)
  from a have a': "lightBlockerField ?a = [] \<or> lightBlockerField ?a \<notin> scene_objects ?a \<or> lightListTSL ?a = []"
    by blast
  from b have b': "lightBlockerField ?b = [] \<or> lightBlockerField ?b \<notin> scene_objects ?b \<or> lightListTSL ?b = []"
    by blast
  from invalid_input_aborts [OF a'] a have ra:
    "connect_blocker ?a = (?a, [Warning ''Invalid or no Light Blocker specified.''], None)"
    "disconnect_blocker ?a = (?a, [Warning ''Invalid or no Light Blocker specified.''], None)"
    by simp_all
  from invalid_input_aborts [OF b'] b have rb:
    "connect_blocker ?b = (?b, [Warning ''No lights in the list to connect.''], None)"
    "disconnect_blocker ?b = (?b, [Warning ''No lights in the list to disconnect.''], None)"
    by simp_all
  from a b(1) ra rb show ?thesis by blast
qed

section \<open>Array element names\<close>

lemma digit_val_digit_char: "d < 10 \<Longrightarrow> digit_val (digit_char d) = Some d"
proof -
  assume "d < 10"
  then have "d \<in> {0, 1, 2, 3, 4, 5, 6, 7, 8, 9}" by auto
  then show ?thesis by (auto simp: digit_val_def digit_char_def)
qed

lemma parse_digits_append:
  "parse_digits acc (xs @ ys) =
     (case parse_digits acc xs of None \<Rightarrow> None | Some a \<Rightarrow> parse_digits a ys)"
  by (induction xs arbitrary: acc) (auto split: option.splits)

lemma parse_digits_str_nat: "parse_digits 0 (str_nat n) = Some n"
proof (induction n rule: str_nat.induct)
  case (1 n)
  show ?case
  proof (cases "n < 10")
    case True
    then show ?thesis by (simp add: str_nat.simps [of n] digit_val_digit_char)
  next
    case False
    with 1 have ih: "parse_digits 0 (str_nat (n div 10)) = Some (n div 10)" by simp
    have "n mod 10 < 10" by simp
    then have d: "digit_val (digit_char (n mod 10)) = Some (n mod 10)"
      by (rule digit_val_digit_char)
    from False have "str_nat n = str_nat (n div 10) @ [digit_char (n mod 10)]"
      by (simp add: str_nat.simps [of n])
    then show ?thesis by (simp add: parse_digits_append ih d)
  qed
qed

lemma element_index_element_name:
  assumes "0 \<le> i"
  shows "element_index attr (element_name attr i) = Some i"
proof -
  from assms have s: "str_int i = str_nat (nat i)" by (simp add: str_int_def)
  have "butlast (drop (length attr + 1) (element_name attr i)) = str_nat (nat i)"
    by (simp add: element_name_def s butlast_append)
  moreover have "prefix (attr @ ''['') (element_name attr i)"
    by (simp add: element_name_def)
  ultimately show ?thesis using assms
    by (simp add: element_index_def parse_digits_str_nat)
qed

lemma element_index_SomeD:
  "element_index attr plug = Some i \<Longrightarrow> plug = element_name attr i \<and> 0 \<le> i"
  by (auto simp: element_index_def split: if_splits option.splits)

lemma is_element_iff: "is_element attr plug \<longleftrightarrow> (\<exists>i\<ge>0. plug = element_name attr i)"
  unfolding is_element_def
  using element_index_SomeD element_index_element_name by fastforce

lemma str_int_0: "str_int 0 = ''0''"
  by (simp add: str_int_def str_nat.simps digit_char_def)

lemma map_filter_element_names:
  "\<forall>i\<in>set is. 0 \<le> i \<Longrightarrow>
   List.map_filter (\<lambda>e. element_index attr (snd e)) (map (\<lambda>i. (src, element_name attr i)) is) = is"
  by (induction "is") (simp_all add: map_filter_simps element_index_element_name)

lemma shapes_or_empty [simp]: "or_empty (listRelatives_s h t) = scene_shapes h t"
  by (simp add: listRelatives_s_def or_empty_def none_if_empty_def)

section \<open>The loop of connect_blocker\<close>

text \<open>
  Claim C10. When the occupied indices cover all of 0 to 999 the search finds nothing,
  \<open>next_index\<close> keeps its initial value 0 (an occupied index), and the loop body asks the
  host to connect the blocker to element 0 of the array, reporting the host's answer.
\<close>

theorem all_occupied_connects_at_zero:
  assumes "scene_shapes h light_transform = light_shape # others"
    and "getAttr_multiIndices h (light_shape @ ''.aiFilters'') = Inr (Some occupied)"
    and "{0..<1000} \<subseteq> set occupied"
  shows "next_index (Some occupied) = 0 \<and> 0 \<in> set occupied
     \<and> connect_light blocker light_transform h =
        (case connectAttr_f h (blocker @ ''.message'') (light_shape @ ''.aiFilters[0]'') of
           Inr h' \<Rightarrow> (h', [Print (''Connected '' @ blocker @ ''.message -> ''
                                  @ light_shape @ ''.aiFilters[0]'')], None)
         | Inl e \<Rightarrow> (h, [Warning (''Could not connect '' @ blocker @ ''.message -> ''
                                   @ light_shape @ ''.aiFilters[0]'' @ '': '' @ e)], None))"
proof -
  from assms(3) have z: "next_index (Some occupied) = 0" by (rule next_index_full)
  from assms(3) have o: "0 \<in> set occupied" by auto
  from assms(1,2) z have "connect_light blocker light_transform h =
        (case connectAttr_f h (blocker @ ''.message'') (light_shape @ ''.aiFilters[0]'') of
           Inr h' \<Rightarrow> (h', [Print (''Connected '' @ blocker @ ''.message -> ''
                                  @ light_shape @ ''.aiFilters[0]'')], None)
         | Inl e \<Rightarrow> (h, [Warning (''Could not connect '' @ blocker @ ''.message -> ''
                                   @ light_shape @ ''.aiFilters[0]'' @ '': '' @ e)], None))"
    by (simp add: connect_light_def str_int_0 Let_def cong: sum.case_cong)
  with z o show ?thesis by simp
qed

theorem all_occupied_connects_at_zero_witness:
  "scene_shapes scene_all_occupied ''L'' = ''LS'' # []
   \<and> getAttr_multiIndices scene_all_occupied (''LS'' @ ''.aiFilters'') = Inr (Some [0..999])
   \<and> {0..<1000} \<subseteq> set [0..999]
   \<and> next_index (Some [0..999]) = 0
   \<and> connect_light ''blk'' ''L'' scene_all_occupied =
        (case connectAttr_f scene_all_occupied (''blk'' @ ''.message'') (''LS'' @ ''.aiFilters[0]'') of
           Inr h' \<Rightarrow> (h', [Print (''Connected '' @ ''blk'' @ ''.message -> ''
                                  @ ''LS'' @ ''.aiFilters[0]'')], None)
         | Inl e \<Rightarrow> (scene_all_occupied, [Warning (''Could not connect '' @ ''blk'' @ ''.message -> ''
                                   @ ''LS'' @ ''.aiFilters[0]'' @ '': '' @ e)], None))"
proof -
  have a: "scene_shapes scene_all_occupied ''L'' = ''LS'' # []"
    by (simp add: scene_all_occupied_def scene_one_light_def)
  have "List.map_filter (\<lambda>e. element_index ''LS.aiFilters'' (snd e))
          (map (\<lambda>i. (''other.message'', element_name ''LS.aiFilters'' i)) [0..999]) = [0..999]"
    by (rule map_filter_element_names) simp
  moreover have "[0..999] \<noteq> []" by (simp add: upto.simps)
  ultimately have b: "getAttr_multiIndices scene_all_occupied (''LS'' @ ''.aiFilters'') = Inr (Some [0..999])"
    by (simp add: getAttr_multiIndices_def scene_all_occupied_def scene_one_light_def none_if_empty_def)
  have c: "{0..<1000} \<subseteq> set [0..999]" by auto
  from a b c all_occupied_connects_at_zero [OF a b c, of "''blk''"] show ?thesis by blast
qed












lemmas scene_eval =
  connect_blocker_def connect_light_def textField_q_tx_def objExists_def textScrollList_q_ai_def
  listRelatives_s_def
  getAttr_multiIndices_def map_filter_simps none_if_empty_def next_index_def truthy_def
  or_empty_def connectAttr_f_def str_int_0 no_shape_warning_def Let_def




section \<open>The loop of disconnect_blocker\<close>

lemma is_element_marker:
  assumes "is_element (light_shape @ ''.aiFilters'') plug"
  shows "sublist ''.aiFilters['' plug"
proof -
  from assms obtain i where "plug = element_name (light_shape @ ''.aiFilters'') i"
    by (auto simp: is_element_iff)
  then have "plug = light_shape @ ''.aiFilters['' @ (str_int i @ '']'')"
    by (simp add: element_name_def)
  then show ?thesis unfolding sublist_def by blast
qed

lemma disconnectAttr_state:
  "(case disconnectAttr h src dest of Inr h' \<Rightarrow> h' | Inl e \<Rightarrow> h) =
     (if dest \<in> scene_locked h then h
      else h\<lparr>scene_connections := removeAll (src, dest) (scene_connections h)\<rparr>)"
  by (simp add: disconnectAttr_def)

lemma disconnect_pairs_flat:
  "fst (disconnect_pairs blocker (concat (map (\<lambda>e. [snd e, fst e]) ps)) h) =
     h\<lparr>scene_connections :=
         filter (\<lambda>e. \<not> (e \<in> set ps \<and> fst e = blocker @ ''.message''
                          \<and> sublist ''.aiFilters['' (snd e) \<and> snd e \<notin> scene_locked h))
           (scene_connections h)\<rparr>
   \<and> snd (snd (disconnect_pairs blocker (concat (map (\<lambda>e. [snd e, fst e]) ps)) h)) = None"
proof (induction ps arbitrary: h)
  case Nil
  then show ?case by simp
next
  case (Cons p ps)
  obtain src dest where p: "p = (src, dest)" by (cases p)
  let ?m = "blocker @ ''.message'' = src \<and> sublist ''.aiFilters['' dest"
  let ?flat = "concat (map (\<lambda>e. [snd e, fst e]) ps)"
  let ?keep = "\<lambda>S h e. \<not> (e \<in> S \<and> fst e = blocker @ ''.message''
                          \<and> sublist ''.aiFilters['' (snd e) \<and> snd e \<notin> scene_locked h)"
  show ?case
  proof (cases ?m)
    case False
    then have "disconnect_pairs blocker (concat (map (\<lambda>e. [snd e, fst e]) (p # ps))) h =
               disconnect_pairs blocker ?flat h"
      by (auto simp: p)
    moreover from False have "filter (?keep (set (p # ps)) h) (scene_connections h) =
                 filter (?keep (set ps) h) (scene_connections h)"
      by (intro filter_cong) (auto simp: p)
    ultimately show ?thesis using Cons.IH [of h] by simp
  next
    case True
    show ?thesis
    proof (cases "disconnectAttr h src dest")
      case (Inl e)
      then have same: "dest \<in> scene_locked h \<or> (src, dest) \<notin> set (scene_connections h)"
        by (auto simp: disconnectAttr_def split: if_splits)
      from Inl True have "fst (disconnect_pairs blocker (concat (map (\<lambda>e. [snd e, fst e]) (p # ps))) h) =
           fst (disconnect_pairs blocker ?flat h)"
        "snd (snd (disconnect_pairs blocker (concat (map (\<lambda>e. [snd e, fst e]) (p # ps))) h)) =
           snd (snd (disconnect_pairs blocker ?flat h))"
        by (simp_all add: p split_beta)
      moreover from same have "filter (?keep (set (p # ps)) h) (scene_connections h) =
                 filter (?keep (set ps) h) (scene_connections h)"
        by (intro filter_cong) (auto simp: p)
      ultimately show ?thesis using Cons.IH [of h] by simp
    next
      case (Inr h')
      then have h': "h' = h\<lparr>scene_connections := removeAll (src, dest) (scene_connections h)\<rparr>"
        and nl: "dest \<notin> scene_locked h"
        by (auto simp: disconnectAttr_def split: if_splits)
      from Inr True have "fst (disconnect_pairs blocker (concat (map (\<lambda>e. [snd e, fst e]) (p # ps))) h) =
           fst (disconnect_pairs blocker ?flat h')"
        "snd (snd (disconnect_pairs blocker (concat (map (\<lambda>e. [snd e, fst e]) (p # ps))) h)) =
           snd (snd (disconnect_pairs blocker ?flat h'))"
        by (simp_all add: p split_beta)
      moreover have "filter (?keep (set ps) h') (scene_connections h') =
                 filter (?keep (set (p # ps)) h) (scene_connections h)"
        using True nl by (auto simp: h' p removeAll_filter_not_eq intro!: filter_cong)
      ultimately show ?thesis using Cons.IH [of h'] by (simp add: h')
    qed
  qed
qed


lemma disconnect_light_no_shape:
  "scene_shapes h light_transform = [] \<Longrightarrow>
   disconnect_light blocker light_transform h = (h, [no_shape_warning light_transform], None)"
  by (simp add: disconnect_light_def)

lemma listConnections_or_empty:
  "or_empty (listConnections_plugs h attr) =
     concat (map (\<lambda>e. [snd e, fst e]) (filter (\<lambda>e. is_element attr (snd e)) (scene_connections h)))"
  by (simp add: listConnections_plugs_def)

lemma disconnect_light_shape:
  assumes "scene_shapes h light_transform = light_shape # others"
  shows "fst (disconnect_light blocker light_transform h) =
           h\<lparr>scene_connections :=
               filter (\<lambda>e. \<not> (blocker_edge blocker light_shape e \<and> snd e \<notin> scene_locked h))
                 (scene_connections h)\<rparr>"
    and "snd (snd (disconnect_light blocker light_transform h)) = None"
proof -
  let ?attr = "light_shape @ ''.aiFilters''"
  let ?ps = "filter (\<lambda>e. is_element ?attr (snd e)) (scene_connections h)"
  from assms have dl: "disconnect_light blocker light_transform h =
      disconnect_pairs blocker (concat (map (\<lambda>e. [snd e, fst e]) ?ps)) h"
    by (simp add: disconnect_light_def listConnections_or_empty)
  have "filter (\<lambda>e. \<not> (e \<in> set ?ps \<and> fst e = blocker @ ''.message''
                          \<and> sublist ''.aiFilters['' (snd e) \<and> snd e \<notin> scene_locked h))
           (scene_connections h) =
        filter (\<lambda>e. \<not> (blocker_edge blocker light_shape e \<and> snd e \<notin> scene_locked h))
                 (scene_connections h)"
    by (intro filter_cong) (auto simp: blocker_edge_def dest: is_element_marker)
  with disconnect_pairs_flat [of blocker ?ps h] dl
  show "fst (disconnect_light blocker light_transform h) =
           h\<lparr>scene_connections :=
               filter (\<lambda>e. \<not> (blocker_edge blocker light_shape e \<and> snd e \<notin> scene_locked h))
                 (scene_connections h)\<rparr>"
    and "snd (snd (disconnect_light blocker light_transform h)) = None"
    by simp_all
qed

lemma disconnect_lights_state:
  "fst (disconnect_lights blocker lights h) =
     h\<lparr>scene_connections :=
         filter (\<lambda>e. \<not> (snd e \<notin> scene_locked h
                   \<and> (\<exists>l\<in>set lights. \<exists>s rest. scene_shapes h l = s # rest \<and> blocker_edge blocker s e)))
           (scene_connections h)\<rparr>
   \<and> snd (snd (disconnect_lights blocker lights h)) = None"
proof (induction lights arbitrary: h)
  case Nil
  then show ?case by simp
next
  case (Cons l lights)
  let ?rm = "\<lambda>ls h e. snd e \<notin> scene_locked h
                   \<and> (\<exists>l\<in>set ls. \<exists>s rest. scene_shapes h l = s # rest \<and> blocker_edge blocker s e)"
  show ?case
  proof (cases "scene_shapes h l")
    case Nil
    then have "disconnect_lights blocker (l # lights) h =
        (fst (disconnect_lights blocker lights h),
         no_shape_warning l # fst (snd (disconnect_lights blocker lights h)),
         snd (snd (disconnect_lights blocker lights h)))"
      by (simp add: disconnect_light_no_shape split_beta)
    moreover from Nil have "filter (\<lambda>e. \<not> ?rm (l # lights) h e) (scene_connections h) =
                            filter (\<lambda>e. \<not> ?rm lights h e) (scene_connections h)"
      by (intro filter_cong) auto
    ultimately show ?thesis using Cons.IH [of h] by simp
  next
    case (Cons s others)
    let ?h1 = "h\<lparr>scene_connections :=
               filter (\<lambda>e. \<not> (blocker_edge blocker s e \<and> snd e \<notin> scene_locked h))
                 (scene_connections h)\<rparr>"
    obtain h1 out1 err1 where dl: "disconnect_light blocker l h = (h1, out1, err1)"
      by (cases "disconnect_light blocker l h")
    with disconnect_light_shape [OF Cons, of blocker] have h1: "h1 = ?h1" and e1: "err1 = None"
      by simp_all
    from dl e1 have "disconnect_lights blocker (l # lights) h =
        (fst (disconnect_lights blocker lights h1),
         out1 @ fst (snd (disconnect_lights blocker lights h1)),
         snd (snd (disconnect_lights blocker lights h1)))"
      by (simp add: split_beta)
    moreover have "filter (\<lambda>e. \<not> ?rm lights ?h1 e) (scene_connections ?h1) =
                   filter (\<lambda>e. \<not> ?rm (l # lights) h e) (scene_connections h)"
      using Cons by (auto intro!: filter_cong)
    ultimately show ?thesis using Cons.IH [of ?h1] by (simp add: h1)
  qed
qed


lemma disconnect_blocker_valid:
  assumes "lightBlockerField h \<noteq> []" "lightBlockerField h \<in> scene_objects h" "lightListTSL h \<noteq> []"
  shows "disconnect_blocker h = disconnect_lights (lightBlockerField h) (lightListTSL h) h"
  using assms
  by (simp add: disconnect_blocker_def textField_q_tx_def objExists_def textScrollList_q_ai_def)

lemma connect_blocker_valid:
  assumes "lightBlockerField h \<noteq> []" "lightBlockerField h \<in> scene_objects h" "lightListTSL h \<noteq> []"
  shows "connect_blocker h = connect_lights (lightBlockerField h) (lightListTSL h) h"
  using assms
  by (simp add: connect_blocker_def textField_q_tx_def objExists_def textScrollList_q_ai_def)

lemmas plug_eval =
  blocker_edge_def is_element_def element_index_def element_name_def str_int_def str_nat.simps
  digit_char_def digit_val_def





















section \<open>Connect followed by disconnect\<close>





section \<open>Running an action a second time\<close>

lemma pick_light_blocker_idem:
  "fst (pick_light_blocker (fst (pick_light_blocker h))) = fst (pick_light_blocker h)"
  by (cases "scene_selection h") (simp_all add: pick_light_blocker_def ls_sl_def textField_e_tx_def)

lemma add_light_selection [simp]: "scene_selection (add_light obj h) = scene_selection h"
  by (simp add: add_light_eq)

lemma fold_add_light_selection [simp]:
  "scene_selection (fold add_light sel h) = scene_selection h"
  by (induction sel arbitrary: h) simp_all

lemma add_selected_lights_idem:
  "fst (add_selected_lights (fst (add_selected_lights h))) = fst (add_selected_lights h)"
proof (cases "scene_selection h = []")
  case True
  then show ?thesis by (simp add: add_selected_lights_def ls_sl_def)
next
  case False
  let ?h1 = "fold add_light (scene_selection h) h"
  from False have one: "fst (add_selected_lights h) = ?h1"
    by (simp add: add_selected_lights_def ls_sl_def)
  have "set (scene_selection ?h1) \<subseteq> set (lightListTSL ?h1)"
    by (simp add: fold_add_light_set)
  then have "fold add_light (scene_selection ?h1) ?h1 = ?h1"
    by (rule fold_add_light_present)
  then have "fst (add_selected_lights ?h1) = ?h1"
    by (simp add: add_selected_lights_def ls_sl_def Let_def)
  with one show ?thesis by simp
qed

lemma fold_ri_selected:
  "lightListTSL_selected (fold textScrollList_e_ri xs h) =
     filter (\<lambda>x. x \<notin> set xs) (lightListTSL_selected h)"
proof (induction xs arbitrary: h)
  case Nil
  then show ?case by simp
next
  case (Cons x xs)
  have "lightListTSL_selected (textScrollList_e_ri x h) = filter (\<lambda>y. y \<noteq> x) (lightListTSL_selected h)"
    by (simp add: textScrollList_e_ri_def removeAll_filter_not_eq) metis
  with Cons.IH [of "textScrollList_e_ri x h"] show ?case
    by (auto intro: filter_cong)
qed

lemma remove_selected_lights_idem:
  "fst (remove_selected_lights (fst (remove_selected_lights h))) = fst (remove_selected_lights h)"
proof (cases "lightListTSL_selected h = []")
  case True
  then show ?thesis by (simp add: remove_selected_lights_def textScrollList_q_si_def)
next
  case False
  let ?h1 = "fold textScrollList_e_ri (lightListTSL_selected h) h"
  from False have one: "fst (remove_selected_lights h) = ?h1"
    by (simp add: remove_selected_lights_def textScrollList_q_si_def)
  have "lightListTSL_selected ?h1 = []" by (simp add: fold_ri_selected)
  then have "fst (remove_selected_lights ?h1) = ?h1"
    by (simp add: remove_selected_lights_def textScrollList_q_si_def)
  with one show ?thesis by simp
qed

lemma disconnect_blocker_idem:
  "fst (disconnect_blocker (fst (disconnect_blocker h))) = fst (disconnect_blocker h)"
proof (cases "lightBlockerField h \<noteq> [] \<and> lightBlockerField h \<in> scene_objects h \<and> lightListTSL h \<noteq> []")
  case False
  then have "fst (disconnect_blocker h) = h"
    by (auto simp: disconnect_blocker_def textField_q_tx_def objExists_def textScrollList_q_ai_def
        Let_def)
  then show ?thesis by simp
next
  case True
  let ?rm = "\<lambda>e. snd e \<notin> scene_locked h
                   \<and> (\<exists>l\<in>set (lightListTSL h). \<exists>s rest. scene_shapes h l = s # rest
                          \<and> blocker_edge (lightBlockerField h) s e)"
  let ?h1 = "h\<lparr>scene_connections := filter (\<lambda>e. \<not> ?rm e) (scene_connections h)\<rparr>"
  from True have one: "fst (disconnect_blocker h) = ?h1"
    using disconnect_lights_state [of "lightBlockerField h" "lightListTSL h" h]
    by (simp add: disconnect_blocker_valid)
  from True have "disconnect_blocker ?h1 = disconnect_lights (lightBlockerField h) (lightListTSL h) ?h1"
    using disconnect_blocker_valid [of ?h1] by simp
  then have "fst (disconnect_blocker ?h1) = ?h1"
    using disconnect_lights_state [of "lightBlockerField h" "lightListTSL h" ?h1]
    by simp
  with one show ?thesis by simp
qed

text \<open>
  Claim C3, as stated, fails for connect: in \<open>scene_one_light\<close> the first run of
  \<^verbatim>\<open>connect_blocker\<close> connects the blocker at index 0, and the second run finds index 0
  occupied and connects it again at index 1, so the host state changes.
\<close>

theorem connect_twice_adds_second_connection:
  "lightBlockerField scene_one_light = ''blk''
   \<and> lightListTSL scene_one_light = [''L'']
   \<and> scene_connections (fst (connect_blocker scene_one_light)) =
       [(''blk.message'', ''LS.aiFilters[0]'')]
   \<and> scene_connections (fst (connect_blocker (fst (connect_blocker scene_one_light)))) =
       [(''blk.message'', ''LS.aiFilters[0]''), (''blk.message'', ''LS.aiFilters[1]'')]
   \<and> fst (connect_blocker (fst (connect_blocker scene_one_light))) \<noteq> fst (connect_blocker scene_one_light)"
proof -
  let ?S = "scene_one_light"
  have f: "lightBlockerField ?S = ''blk''" "lightListTSL ?S = [''L'']"
    by (simp_all add: scene_one_light_def)
  have c: "fst (connect_blocker ?S) =
      ?S\<lparr>scene_connections := [(''blk.message'', ''LS.aiFilters[0]'')]\<rparr>"
    by (simp add: scene_one_light_def scene_eval plug_eval upto.simps)
  have c2: "scene_connections (fst (connect_blocker (fst (connect_blocker ?S)))) =
       [(''blk.message'', ''LS.aiFilters[0]''), (''blk.message'', ''LS.aiFilters[1]'')]"
    unfolding c by (simp add: scene_one_light_def scene_eval plug_eval upto.simps)
  from c have c1: "scene_connections (fst (connect_blocker ?S)) = [(''blk.message'', ''LS.aiFilters[0]'')]"
    by simp
  from c1 c2 have "scene_connections (fst (connect_blocker (fst (connect_blocker ?S))))
        \<noteq> scene_connections (fst (connect_blocker ?S))"
    by simp
  then have "fst (connect_blocker (fst (connect_blocker ?S))) \<noteq> fst (connect_blocker ?S)"
    by auto
  with f c1 c2 show ?thesis by blast
qed

text \<open>
  Claim C3, amended. For pick, add, remove and disconnect, running the action a second
  time on the host state produced by the first run leaves that state unchanged.
\<close>

theorem retry_is_idempotent_except_connect:
  "fst (pick_light_blocker (fst (pick_light_blocker h))) = fst (pick_light_blocker h)
   \<and> fst (add_selected_lights (fst (add_selected_lights h))) = fst (add_selected_lights h)
   \<and> fst (remove_selected_lights (fst (remove_selected_lights h))) = fst (remove_selected_lights h)
   \<and> fst (disconnect_blocker (fst (disconnect_blocker h))) = fst (disconnect_blocker h)"
  by (simp only: pick_light_blocker_idem add_selected_lights_idem remove_selected_lights_idem
      disconnect_blocker_idem simp_thms)

theorem retry_is_idempotent_except_connect_witness:
  "fst (pick_light_blocker (fst (pick_light_blocker scene_two_connections))) =
     fst (pick_light_blocker scene_two_connections)
   \<and> fst (add_selected_lights (fst (add_selected_lights scene_two_connections))) =
     fst (add_selected_lights scene_two_connections)
   \<and> fst (remove_selected_lights (fst (remove_selected_lights scene_two_connections))) =
     fst (remove_selected_lights scene_two_connections)
   \<and> fst (disconnect_blocker (fst (disconnect_blocker scene_two_connections))) =
     fst (disconnect_blocker scene_two_connections)"
  by (rule retry_is_idempotent_except_connect)

end
